theory Spec2Isabelle
  imports Complex_Main
begin

section \<open>Python values\<close>

text \<open>
  The fields \<open>time\<close> and \<open>size\<close> of a LoadResult hold whatever the backend passes:
  \<open>None\<close> (the default), a number, or a string (the PhantomJS loader passes the text it
  parsed). The constructor of PageResult tests them for truth, so the model keeps the
  three shapes and Python's truth value of each.
\<close>

datatype pyval = PyNone | PyNum real | PyStr string

fun truthy :: "pyval \<Rightarrow> bool" where
  "truthy PyNone = False"
| "truthy (PyNum x) = (x \<noteq> 0)"
| "truthy (PyStr s) = (s \<noteq> [])"

text \<open>A call either returns a value or raises an exception.\<close>

datatype 'a outcome = Returned 'a | Raised

section \<open>Results (webloader/loader.py, classes LoadResult and PageResult)\<close>

definition LoadResult_SUCCESS :: string where
  "LoadResult_SUCCESS = ''SUCCESS''"

definition LoadResult_FAILURE_TIMEOUT :: string where
  "LoadResult_FAILURE_TIMEOUT = ''FAILURE_TIMEOUT''"

definition LoadResult_FAILURE_UNKNOWN :: string where
  "LoadResult_FAILURE_UNKNOWN = ''FAILURE_UNKNOWN''"

definition LoadResult_FAILURE_NO_200 :: string where
  "LoadResult_FAILURE_NO_200 = ''FAILURE_NO_200''"

definition LoadResult_FAILURE_UNSET :: string where
  "LoadResult_FAILURE_UNSET = ''FAILURE_UNSET''"

record LoadResult =
  lr_status :: string
  lr_url :: string
  lr_final_url :: "string option"
  lr_time :: pyval
  lr_size :: pyval
  lr_har_path :: "string option"
  lr_image_path :: "string option"
  lr_raw :: "string option"
  lr_tcp_fast_open_supported :: bool

text \<open>\<open>LoadResult(status, url)\<close> with every keyword argument at its default.\<close>

definition LoadResult_init :: "string \<Rightarrow> string \<Rightarrow> LoadResult" where
  "LoadResult_init st u =
     \<lparr>lr_status = st, lr_url = u, lr_final_url = None, lr_time = PyNone, lr_size = PyNone,
      lr_har_path = None, lr_image_path = None, lr_raw = None,
      lr_tcp_fast_open_supported = False\<rparr>"

definition PageResult_SUCCESS :: string where
  "PageResult_SUCCESS = ''SUCCESS''"

definition PageResult_PARTIAL_SUCCESS :: string where
  "PageResult_PARTIAL_SUCCESS = ''PARTIAL_SUCCESS''"

definition PageResult_FAILURE_NOT_ACCESSIBLE :: string where
  "PageResult_FAILURE_NOT_ACCESSIBLE = ''FAILURE_NOT_ACCESSIBLE''"

definition PageResult_FAILURE_UNKNOWN :: string where
  "PageResult_FAILURE_UNKNOWN = ''FAILURE_UNKNOWN''"

definition PageResult_FAILURE_UNSET :: string where
  "PageResult_FAILURE_UNSET = ''FAILURE_UNSET''"

record PageResult =
  pr_status :: string
  pr_url :: string
  pr_times :: "pyval list"
  pr_sizes :: "pyval list"
  pr_tcp_fast_open_support_statuses :: "bool list"

text \<open>
  The body of the loop over \<open>load_results\<close> in \<open>PageResult.__init__\<close>: the state is
  (was_a_failure, was_a_success, the summary under construction).
\<close>

definition PageResult_step :: "LoadResult \<Rightarrow> bool \<times> bool \<times> PageResult \<Rightarrow> bool \<times> bool \<times> PageResult" where
  "PageResult_step result acc =
     (case acc of (was_a_failure, was_a_success, p) \<Rightarrow>
        if lr_status result = PageResult_SUCCESS then
          (let p1 = (if truthy (lr_time result) then p\<lparr>pr_times := pr_times p @ [lr_time result]\<rparr> else p);
               p2 = (if truthy (lr_size result) then p1\<lparr>pr_sizes := pr_sizes p1 @ [lr_size result]\<rparr> else p1);
               p3 = p2\<lparr>pr_tcp_fast_open_support_statuses :=
                          pr_tcp_fast_open_support_statuses p2 @ [lr_tcp_fast_open_supported result]\<rparr>
           in (was_a_failure, True, p3))
        else (True, was_a_success, p))"

text \<open>
  \<open>PageResult(url, status=None, load_results=None)\<close>. Both \<open>if load_results:\<close> and
  \<open>if status:\<close> test for truth: \<open>None\<close>, the empty list and the empty string fail them.
\<close>

definition PageResult_init :: "string \<Rightarrow> string option \<Rightarrow> LoadResult list option \<Rightarrow> PageResult" where
  "PageResult_init u status load_results =
     (let p0 = \<lparr>pr_status = PageResult_FAILURE_UNSET, pr_url = u, pr_times = [], pr_sizes = [],
                pr_tcp_fast_open_support_statuses = []\<rparr>;
          p1 = (case load_results of
                  None \<Rightarrow> p0
                | Some rs \<Rightarrow>
                    if rs \<noteq> [] then
                      (case fold PageResult_step rs (False, False, p0) of
                         (was_a_failure, was_a_success, p) \<Rightarrow>
                           if was_a_failure \<and> was_a_success then p\<lparr>pr_status := PageResult_PARTIAL_SUCCESS\<rparr>
                           else if was_a_success then p\<lparr>pr_status := PageResult_SUCCESS\<rparr>
                           else p\<lparr>pr_status := PageResult_FAILURE_UNKNOWN\<rparr>)
                    else p0)
      in case status of
           None \<Rightarrow> p1
         | Some st \<Rightarrow> if st \<noteq> [] then p1\<lparr>pr_status := st\<rparr> else p1)"

section \<open>Helper methods of Loader\<close>

text \<open>
  \<open>_sanitize_url\<close> is \<open>re.sub(r'[/\;,><&*:%=+@!#^()|?^]', '-', url)\<close>. The pattern is one
  character class. \<open>class_body\<close> is the text between the brackets as it stands in the
  source (the second character is a backslash). Inside a class a backslash escapes the
  character after it, which then stands for itself; the class has no range and does
  not begin with the negation sign, so every other character stands for itself too.
\<close>

definition class_body :: string where
  "class_body = [CHR ''/'', CHR 0x5C] @ '';,><&*:%=+@!#^()|?^''"

fun class_members :: "string \<Rightarrow> char list" where
  "class_members [] = []"
| "class_members (c # cs) =
     (if c = CHR 0x5C then (case cs of [] \<Rightarrow> [] | d # ds \<Rightarrow> d # class_members ds)
      else c # class_members cs)"

definition sanitize_url :: "string \<Rightarrow> string" where
  "sanitize_url u = map (\<lambda>c. if c \<in> set (class_members class_body) then CHR ''-'' else c) u"

text \<open>\<open>sub in s\<close> on Python strings: \<open>sub\<close> occurs in \<open>s\<close> as a contiguous run.\<close>

fun str_contains :: "string \<Rightarrow> string \<Rightarrow> bool" where
  "str_contains sub [] = (sub = [])"
| "str_contains sub (c # cs) = (take (length sub) (c # cs) = sub \<or> str_contains sub cs)"

definition check_url :: "string \<Rightarrow> string" where
  "check_url u = (if \<not> str_contains ''://'' u then ''http://'' @ u else u)"

section \<open>The loader (webloader/loader.py, class Loader)\<close>

text \<open>
  The options of \<open>Loader.__init__\<close> that \<open>load_pages\<close> reads. No method assigns them
  after construction, so they are kept apart from the attributes that change.
\<close>

record config =
  outdir :: string
  num_trials :: int
  timeout :: int
  user_agent :: "string option"
  restart_on_fail :: bool
  save_har :: bool
  retries_per_trial :: int
  check_protocol_availability :: bool

text \<open>What \<open>requests.get\<close> does inside \<open>_check_protocol_available\<close>, one case per handler.\<close>

datatype get_outcome =
    Get_ConnectionError
  | Get_Timeout
  | Get_TimeoutError
  | Get_Exception
  | Get_Response string

text \<open>
  The world outside the orchestrator: the hooks \<open>_setup\<close>, \<open>_teardown\<close> and \<open>_load_page\<close>
  that a subclass supplies, the HTTP client and the URL parser. Each one may raise; the
  hooks and the client act on a state \<open>'b\<close> of their own (processes, network).
  \<open>urlparse_scheme u\<close> is \<open>urlparse.urlparse(u).scheme\<close>.
\<close>

record 'b backend =
  hook_setup :: "'b \<Rightarrow> bool outcome \<times> 'b"
  hook_teardown :: "'b \<Rightarrow> unit outcome \<times> 'b"
  hook_load_page :: "string \<Rightarrow> string \<Rightarrow> int \<Rightarrow> 'b \<Rightarrow> LoadResult outcome \<times> 'b"
  requests_get :: "string \<Rightarrow> int \<Rightarrow> (string \<times> string) list \<Rightarrow> 'b \<Rightarrow> get_outcome \<times> 'b"
  urlparse_scheme :: "string \<Rightarrow> string outcome"

text \<open>Every call that leaves the orchestrator is written down, with what came back.\<close>

datatype call =
    Call_setup "bool outcome"
  | Call_teardown "unit outcome"
  | Call_requests_get string get_outcome
  | Call_load_page string string int "LoadResult outcome"

text \<open>The messages of level info and above, one constructor per logging statement.\<close>

datatype log_entry =
    Log_no_protocol string
  | Log_error_requesting string
  | Log_not_accessible string
  | Log_error_setting_up
  | Log_error_loading_page string
  | Log_error_loading_pages
  | Log_no_urls

text \<open>
  The attributes of a Loader that change during a run, followed by the state of the
  outside world and the two journals (calls made, messages logged).
\<close>

record 'b loader =
  urls :: "string list"
  load_results :: "string \<rightharpoonup> LoadResult list"
  page_results :: "string \<rightharpoonup> PageResult"
  num_restarts :: int
  backend_state :: 'b
  calls :: "call list"
  logged :: "log_entry list"

definition Loader_init :: "'b \<Rightarrow> 'b loader" where
  "Loader_init b =
     \<lparr>urls = [], load_results = Map.empty, page_results = Map.empty, num_restarts = 0,
      backend_state = b, calls = [], logged = []\<rparr>"

text \<open>\<open>_load_results\<close> is a \<open>defaultdict(list)\<close>: reading a missing key stores an empty list.\<close>

definition dd_get :: "(string \<rightharpoonup> LoadResult list) \<Rightarrow> string \<Rightarrow> LoadResult list \<times> (string \<rightharpoonup> LoadResult list)" where
  "dd_get m k = (case m k of None \<Rightarrow> ([], m(k \<mapsto> [])) | Some v \<Rightarrow> (v, m))"

definition dd_append :: "(string \<rightharpoonup> LoadResult list) \<Rightarrow> string \<Rightarrow> LoadResult \<Rightarrow> (string \<rightharpoonup> LoadResult list)" where
  "dd_append m k r = (case dd_get m k of (v, m1) \<Rightarrow> m1(k \<mapsto> v @ [r]))"

definition call_setup :: "'b backend \<Rightarrow> 'b loader \<Rightarrow> bool outcome \<times> 'b loader" where
  "call_setup B L =
     (case hook_setup B (backend_state L) of
        (r, b) \<Rightarrow> (r, L\<lparr>backend_state := b, calls := calls L @ [Call_setup r]\<rparr>))"

definition call_teardown :: "'b backend \<Rightarrow> 'b loader \<Rightarrow> unit outcome \<times> 'b loader" where
  "call_teardown B L =
     (case hook_teardown B (backend_state L) of
        (r, b) \<Rightarrow> (r, L\<lparr>backend_state := b, calls := calls L @ [Call_teardown r]\<rparr>))"

definition call_load_page :: "'b backend \<Rightarrow> string \<Rightarrow> string \<Rightarrow> int \<Rightarrow> 'b loader \<Rightarrow> LoadResult outcome \<times> 'b loader" where
  "call_load_page B u od i L =
     (case hook_load_page B u od i (backend_state L) of
        (r, b) \<Rightarrow> (r, L\<lparr>backend_state := b, calls := calls L @ [Call_load_page u od i r]\<rparr>))"

text \<open>
  \<open>_check_protocol_available\<close>. The two readings of the scheme stand outside the
  \<open>try\<close> block, so an exception of the parser leaves the method; every exception of the
  request is handled and answers \<open>False\<close>.
\<close>

definition check_protocol_available :: "'b backend \<Rightarrow> config \<Rightarrow> string \<Rightarrow> 'b loader \<Rightarrow> bool outcome \<times> 'b loader" where
  "check_protocol_available B C u L =
     (case urlparse_scheme B u of
        Raised \<Rightarrow> (Raised, L)
      | Returned orig_protocol \<Rightarrow>
          (let headers = (case user_agent C of
                            None \<Rightarrow> []
                          | Some ua \<Rightarrow> if ua \<noteq> [] then [(''User-Agent'', ua)] else [])
           in case requests_get B u (timeout C) headers (backend_state L) of
                (g, b) \<Rightarrow>
                  (let L1 = L\<lparr>backend_state := b, calls := calls L @ [Call_requests_get u g]\<rparr>
                   in case g of
                        Get_ConnectionError \<Rightarrow> (Returned False, L1)
                      | Get_Timeout \<Rightarrow> (Returned False, L1)
                      | Get_TimeoutError \<Rightarrow> (Returned False, L1)
                      | Get_Exception \<Rightarrow>
                          (Returned False, L1\<lparr>logged := logged L1 @ [Log_error_requesting u]\<rparr>)
                      | Get_Response final_url \<Rightarrow>
                          (case urlparse_scheme B final_url of
                             Raised \<Rightarrow> (Raised, L1)
                           | Returned final_protocol \<Rightarrow>
                               (Returned (orig_protocol = final_protocol), L1)))))"

text \<open>The two statements that record a result: append the URL, append the result.\<close>

definition record_result :: "string \<Rightarrow> LoadResult \<Rightarrow> 'b loader \<Rightarrow> 'b loader" where
  "record_result u result L =
     L\<lparr>urls := urls L @ [u], load_results := dd_append (load_results L) u result\<rparr>"

text \<open>The restart: \<open>_teardown()\<close>, \<open>_setup()\<close> (its answer is dropped), one more restart counted.\<close>

definition restart :: "'b backend \<Rightarrow> 'b loader \<Rightarrow> unit outcome \<times> 'b loader" where
  "restart B L =
     (case call_teardown B L of
        (Raised, L1) \<Rightarrow> (Raised, L1)
      | (Returned _, L1) \<Rightarrow>
          (case call_setup B L1 of
             (Raised, L2) \<Rightarrow> (Raised, L2)
           | (Returned _, L2) \<Rightarrow> (Returned (), L2\<lparr>num_restarts := num_restarts L2 + 1\<rparr>)))"

text \<open>
  One pass through the body of the \<open>while\<close> loop, entered with \<open>tries_so_far\<close> already
  incremented to \<open>tries\<close>. The answer says how the pass ends: the \<open>break\<close>, the end of
  the body (back to the loop test), or an exception.
\<close>

datatype pass_end = Break | Next | Escaped

definition attempt :: "'b backend \<Rightarrow> config \<Rightarrow> string \<Rightarrow> int \<Rightarrow> int \<Rightarrow> 'b loader \<Rightarrow> pass_end \<times> 'b loader" where
  "attempt B C u i tries L =
     (case call_load_page B u (outdir C) i L of
        (Raised, L1) \<Rightarrow> (Escaped, L1)
      | (Returned result, L1) \<Rightarrow>
          if lr_status result = LoadResult_SUCCESS then (Break, record_result u result L1)
          else
            (let L2 = (if tries > retries_per_trial C then record_result u result L1 else L1)
             in if lr_status result = LoadResult_FAILURE_UNKNOWN \<and> restart_on_fail C then
                  (case restart B L2 of
                     (Raised, L3) \<Rightarrow> (Escaped, L3)
                   | (Returned _, L3) \<Rightarrow> (Next, L3))
                else (Next, L2)))"

text \<open>The \<open>while tries_so_far <= self._retries_per_trial\<close> loop.\<close>

function try_loop :: "'b backend \<Rightarrow> config \<Rightarrow> string \<Rightarrow> int \<Rightarrow> int \<Rightarrow> 'b loader \<Rightarrow> unit outcome \<times> 'b loader" where
  "try_loop B C u i tries_so_far L =
     (if tries_so_far \<le> retries_per_trial C then
        (case attempt B C u i (tries_so_far + 1) L of
           (Break, L1) \<Rightarrow> (Returned (), L1)
         | (Escaped, L1) \<Rightarrow> (Raised, L1)
         | (Next, L1) \<Rightarrow> try_loop B C u i (tries_so_far + 1) L1)
      else (Returned (), L))"
  by pat_completeness auto
termination
  by (relation "measure (\<lambda>(B, C, u, i, t, L). nat (retries_per_trial C + 1 - t))") auto

text \<open>One trial: the \<open>try\<close> around the loop; its handler logs and goes on.\<close>

definition trial :: "'b backend \<Rightarrow> config \<Rightarrow> string \<Rightarrow> int \<Rightarrow> 'b loader \<Rightarrow> 'b loader" where
  "trial B C u i L =
     (case try_loop B C u i 0 L of
        (Raised, L1) \<Rightarrow> L1\<lparr>logged := logged L1 @ [Log_error_loading_page u]\<rparr>
      | (Returned _, L1) \<Rightarrow> L1)"

text \<open>\<open>for i in range(0, self._num_trials)\<close>.\<close>

definition trials :: "'b backend \<Rightarrow> config \<Rightarrow> string \<Rightarrow> 'b loader \<Rightarrow> 'b loader" where
  "trials B C u L = fold (\<lambda>i. trial B C u i) [0 .. num_trials C - 1] L"

text \<open>The summary stored after the trials, read from the accumulated table.\<close>

definition save_page_result :: "string \<Rightarrow> 'b loader \<Rightarrow> 'b loader" where
  "save_page_result u L =
     (case dd_get (load_results L) u of
        (rs, m) \<Rightarrow> L\<lparr>load_results := m,
                     page_results := (page_results L)(u \<mapsto> PageResult_init u None (Some rs))\<rparr>)"

text \<open>The body of \<open>for url in urls\<close>.\<close>

definition run_trials :: "'b backend \<Rightarrow> config \<Rightarrow> string \<Rightarrow> 'b loader \<Rightarrow> unit outcome \<times> 'b loader" where
  "run_trials B C u L = (Returned (), save_page_result u (trials B C u L))"

definition not_accessible :: "string \<Rightarrow> 'b loader \<Rightarrow> 'b loader" where
  "not_accessible u L =
     L\<lparr>logged := logged L @ [Log_not_accessible u],
       urls := urls L @ [u],
       page_results := (page_results L)(u \<mapsto>
          PageResult_init u (Some PageResult_FAILURE_NOT_ACCESSIBLE) None)\<rparr>"

definition process_url :: "'b backend \<Rightarrow> config \<Rightarrow> string \<Rightarrow> 'b loader \<Rightarrow> unit outcome \<times> 'b loader" where
  "process_url B C u0 L =
     (let L0 = (if \<not> str_contains ''://'' u0 then L\<lparr>logged := logged L @ [Log_no_protocol u0]\<rparr> else L);
          u = check_url u0
      in if check_protocol_availability C then
           (case check_protocol_available B C u L0 of
              (Raised, L1) \<Rightarrow> (Raised, L1)
            | (Returned ok, L1) \<Rightarrow>
                if \<not> ok then (Returned (), not_accessible u L1)
                else run_trials B C u L1)
         else run_trials B C u L0)"

fun for_urls :: "'b backend \<Rightarrow> config \<Rightarrow> string list \<Rightarrow> 'b loader \<Rightarrow> unit outcome \<times> 'b loader" where
  "for_urls B C [] L = (Returned (), L)"
| "for_urls B C (u # us) L =
     (case process_url B C u L of
        (Raised, L1) \<Rightarrow> (Raised, L1)
      | (Returned _, L1) \<Rightarrow> for_urls B C us L1)"

text \<open>The \<open>try\<close> block of \<open>load_pages\<close>.\<close>

definition load_pages_body :: "'b backend \<Rightarrow> config \<Rightarrow> string list \<Rightarrow> 'b loader \<Rightarrow> unit outcome \<times> 'b loader" where
  "load_pages_body B C us L =
     (case call_setup B L of
        (Raised, L1) \<Rightarrow> (Raised, L1)
      | (Returned ok, L1) \<Rightarrow>
          if \<not> ok then (Returned (), L1\<lparr>logged := logged L1 @ [Log_error_setting_up]\<rparr>)
          else for_urls B C us L1)"

text \<open>
  \<open>load_pages\<close>: the block, the handler \<open>except Exception\<close> (log, go on to the end), and
  \<open>finally: self._teardown()\<close>, whose own exception would reach the caller.
\<close>

definition load_pages :: "'b backend \<Rightarrow> config \<Rightarrow> string list \<Rightarrow> 'b loader \<Rightarrow> unit outcome \<times> 'b loader" where
  "load_pages B C us L =
     (let L2 = (case load_pages_body B C us L of
                  (Raised, L1) \<Rightarrow> L1\<lparr>logged := logged L1 @ [Log_error_loading_pages]\<rparr>
                | (Returned _, L1) \<Rightarrow> L1)
      in call_teardown B L2)"

section \<open>The Chrome backend's attempt (webloader/chrome_loader.py)\<close>

text \<open>\<open>'%d' % n\<close>: the decimal numeral of an integer.\<close>

fun digits :: "nat \<Rightarrow> string" where
  "digits n = (if n < 10 then [char_of (48 + n)] else digits (n div 10) @ [char_of (48 + n mod 10)])"

declare digits.simps [simp del]

definition format_d :: "int \<Rightarrow> string" where
  "format_d n = (if n < 0 then CHR ''-'' # digits (nat (- n)) else digits (nat n))"

text \<open>\<open>os.path.join(a, b)\<close> on POSIX paths.\<close>

definition path_join :: "string \<Rightarrow> string \<Rightarrow> string" where
  "path_join a b =
     (if take 1 b = ''/'' then b
      else if a = [] \<or> last a = CHR ''/'' then a @ b
      else a @ ''/'' @ b)"

text \<open>How the capturer subprocess ends, one case per handler of \<open>_load_page\<close>.\<close>

datatype capture_end =
    Capture_done
  | Capture_TimeoutError
  | Capture_CalledProcessError
  | Capture_Exception

definition ChromeLoader_load_page :: "config \<Rightarrow> string \<Rightarrow> string \<Rightarrow> int \<Rightarrow> capture_end \<Rightarrow> LoadResult" where
  "ChromeLoader_load_page C u od trial_num e =
     (let safeurl = sanitize_url u;
          filename = safeurl @ ''_trial'' @ format_d trial_num @ ''.har'';
          harpath = (if save_har C then path_join od filename else ''/dev/null'')
      in case e of
           Capture_TimeoutError \<Rightarrow> LoadResult_init LoadResult_FAILURE_TIMEOUT u
         | Capture_CalledProcessError \<Rightarrow> LoadResult_init LoadResult_FAILURE_UNKNOWN u
         | Capture_Exception \<Rightarrow> LoadResult_init LoadResult_FAILURE_UNKNOWN u
         | Capture_done \<Rightarrow> (LoadResult_init LoadResult_SUCCESS u)\<lparr>lr_har_path := Some harpath\<rparr>)"

section \<open>The command-line tool (tools/screenshot_generator.py, function main)\<close>

text \<open>\<open>s.strip()\<close>: the whitespace of Python's byte strings removed at both ends.\<close>

definition is_space :: "char \<Rightarrow> bool" where
  "is_space c = (c \<in> set [CHR '' '', CHR 0x09, CHR 0x0A, CHR 0x0B, CHR 0x0C, CHR 0x0D])"

definition py_strip :: "string \<Rightarrow> string" where
  "py_strip s = rev (dropWhile is_space (rev (dropWhile is_space s)))"

text \<open>
  The arguments \<open>main\<close> reads. \<open>url_file_lines\<close> holds the lines of the file named by
  \<open>--url_file\<close>, and is \<open>None\<close> when the option is not given.
\<close>

record args =
  url_file_lines :: "string list option"
  load_pages_arg :: "string list option"
  args_outdir :: string
  numtrials :: int
  useragent :: "string option"

definition make_url_list :: "args \<Rightarrow> string list" where
  "make_url_list a =
     (let urls1 = (case url_file_lines a of
                     None \<Rightarrow> []
                   | Some ls \<Rightarrow> map py_strip (filter (\<lambda>l. l \<noteq> []) (map py_strip ls)));
          urls2 = (case load_pages_arg a of
                     None \<Rightarrow> urls1
                   | Some xs \<Rightarrow> if xs \<noteq> [] then urls1 @ xs else urls1)
      in urls2)"

text \<open>
  How \<open>main\<close> ends: \<open>sys.exit\<close> with a status after the messages logged, the loader after
  a run, or the loader when the run's closing teardown raised (nothing catches that).
  The pickling of the loader after the run is a write to disk and is left out.
\<close>

datatype 'b main_end =
    Exit int "log_entry list"
  | Ran "'b loader"
  | Uncaught "'b loader"

definition main :: "'b backend \<Rightarrow> 'b \<Rightarrow> args \<Rightarrow> 'b main_end" where
  "main B b a =
     (let us = make_url_list a
      in if length us = 0 then Exit (- 1) [Log_no_urls]
         else
           (let C = \<lparr>outdir = args_outdir a, num_trials = numtrials a, timeout = 30,
                     user_agent = useragent a, restart_on_fail = True, save_har = False,
                     retries_per_trial = 3, check_protocol_availability = True\<rparr>
            in case load_pages B C us (Loader_init b) of
                 (Raised, L) \<Rightarrow> Uncaught L
               | (Returned _, L) \<Rightarrow> Ran L))"

section \<open>Reading the journal of calls\<close>

text \<open>The calls made between two states of the loader.\<close>

definition calls_since :: "'b loader \<Rightarrow> 'b loader \<Rightarrow> call list" where
  "calls_since L L' = drop (length (calls L)) (calls L')"

text \<open>What the attempts among some calls answered, in order.\<close>

fun load_page_outcomes :: "call list \<Rightarrow> LoadResult outcome list" where
  "load_page_outcomes [] = []"
| "load_page_outcomes (Call_load_page u od i r # cs) = r # load_page_outcomes cs"
| "load_page_outcomes (c # cs) = load_page_outcomes cs"

fun is_teardown :: "call \<Rightarrow> bool" where
  "is_teardown (Call_teardown r) = True"
| "is_teardown c = False"

fun is_setup :: "call \<Rightarrow> bool" where
  "is_setup (Call_setup r) = True"
| "is_setup c = False"

fun raised :: "call \<Rightarrow> bool" where
  "raised (Call_setup r) = (r = Raised)"
| "raised (Call_teardown r) = (r = Raised)"
| "raised (Call_load_page u od i r) = (r = Raised)"
| "raised (Call_requests_get u g) = False"

text \<open>A call of a hook (setup or teardown) that raised.\<close>

fun hook_raised :: "call \<Rightarrow> bool" where
  "hook_raised (Call_setup r) = (r = Raised)"
| "hook_raised (Call_teardown r) = (r = Raised)"
| "hook_raised c = False"

text \<open>A backend whose hooks never raise.\<close>

definition quiet :: "'b backend \<Rightarrow> bool" where
  "quiet B \<longleftrightarrow> (\<forall>b. fst (hook_setup B b) \<noteq> Raised) \<and> (\<forall>b. fst (hook_teardown B b) \<noteq> Raised)"

fun has_status :: "string \<Rightarrow> LoadResult outcome \<Rightarrow> bool" where
  "has_status st (Returned r) = (lr_status r = st)"
| "has_status st Raised = False"

text \<open>The attempts among some calls that answered an unknown failure.\<close>

definition unknown_failures :: "call list \<Rightarrow> nat" where
  "unknown_failures cs = length (filter (has_status LoadResult_FAILURE_UNKNOWN) (load_page_outcomes cs))"

text \<open>The list the table holds for a key, empty when the key is missing.\<close>

definition results_of :: "(string \<rightharpoonup> LoadResult list) \<Rightarrow> string \<Rightarrow> LoadResult list" where
  "results_of m k = (case m k of None \<Rightarrow> [] | Some v \<Rightarrow> v)"

definition teardowns :: "call list \<Rightarrow> nat" where
  "teardowns cs = length (filter is_teardown cs)"

text \<open>The restarts some calls give rise to: one for each unknown failure, if enabled.\<close>

definition restarts_due :: "config \<Rightarrow> call list \<Rightarrow> nat" where
  "restarts_due C cs = (if restart_on_fail C then unknown_failures cs else 0)"

text \<open>
  What holds of the journal and the restart counter from a state to a later one: the
  journal grows at its end; among the new calls there is one teardown for each restart
  due; the counter grows by at most the restarts due, and by exactly that many when no
  new call of a hook raised, as is the case when the hooks of the backend never raise.
\<close>

definition journal_ok :: "'b backend \<Rightarrow> config \<Rightarrow> 'b loader \<Rightarrow> 'b loader \<Rightarrow> bool" where
  "journal_ok B C L L' \<longleftrightarrow>
     (\<exists>new. calls L' = calls L @ new \<and>
        teardowns new = restarts_due C new \<and>
        num_restarts L \<le> num_restarts L' \<and>
        num_restarts L' \<le> num_restarts L + int (restarts_due C new) \<and>
        (\<not> list_ex hook_raised new \<longrightarrow> num_restarts L' = num_restarts L + int (restarts_due C new)) \<and>
        (quiet B \<longrightarrow> \<not> list_ex hook_raised new))"

text \<open>
  What holds of the tables from a state to a later one while the URL \<open>u\<close> is loaded: at
  most \<open>n\<close> results are appended to the list of \<open>u\<close>, every other list and every
  summary stay as they are.
\<close>

definition table_ext :: "string \<Rightarrow> nat \<Rightarrow> 'b loader \<Rightarrow> 'b loader \<Rightarrow> bool" where
  "table_ext u n L L' \<longleftrightarrow>
     (\<exists>new. results_of (load_results L') u = results_of (load_results L) u @ new \<and>
        length new \<le> n \<and>
        (\<forall>k. k \<noteq> u \<longrightarrow> load_results L' k = load_results L k) \<and>
        page_results L' = page_results L)"

text \<open>
  The result a trial leaves in the table, read from the answers of its attempts, of
  which \<open>n\<close> are allowed: the answer of the last attempt, when that attempt returned
  and either succeeded or was the last one allowed.
\<close>

definition final_result :: "int \<Rightarrow> LoadResult outcome list \<Rightarrow> LoadResult option" where
  "final_result n os =
     (if os = [] then None
      else case last os of
             Raised \<Rightarrow> None
           | Returned r \<Rightarrow>
               if lr_status r = LoadResult_SUCCESS \<or> int (length os) = n then Some r else None)"

text \<open>
  What the attempt loop, entered with \<open>t\<close> tries made, does from \<open>L\<close> to \<open>L'\<close> by the
  calls \<open>new\<close>, ending as \<open>x\<close>: it makes at most the attempts still allowed, every
  attempt before the last returned a failure, the table gains the final result and
  nothing else, and the loop ends by an exception exactly when a call raised.
\<close>

definition loop_effect :: "config \<Rightarrow> string \<Rightarrow> int \<Rightarrow> 'b loader \<Rightarrow> 'b loader \<Rightarrow> unit outcome \<Rightarrow> call list \<Rightarrow> bool" where
  "loop_effect C u t L L' x new \<longleftrightarrow>
     calls L' = calls L @ new \<and>
     page_results L' = page_results L \<and>
     int (length (load_page_outcomes new)) \<le> max 0 (retries_per_trial C + 1 - t) \<and>
     (t \<le> retries_per_trial C \<longrightarrow> load_page_outcomes new \<noteq> []) \<and>
     (\<forall>a \<in> set (butlast (load_page_outcomes new)). a \<noteq> Raised \<and> \<not> has_status LoadResult_SUCCESS a) \<and>
     (case final_result (retries_per_trial C + 1 - t) (load_page_outcomes new) of
        Some r \<Rightarrow> load_results L' = dd_append (load_results L) u r \<and> urls L' = urls L @ [u]
      | None \<Rightarrow> load_results L' = load_results L \<and> urls L' = urls L) \<and>
     (x = Raised \<longleftrightarrow> list_ex raised new) \<and>
     (\<not> list_ex raised new \<and> t \<le> retries_per_trial C \<longrightarrow>
        final_result (retries_per_trial C + 1 - t) (load_page_outcomes new) \<noteq> None)"

text \<open>
  The URL \<open>u0\<close> is found not accessible in the state \<open>L\<close>: the check is enabled and
  the prober answers \<open>False\<close> for the normalized URL.
\<close>

definition found_inaccessible :: "'b backend \<Rightarrow> config \<Rightarrow> string \<Rightarrow> 'b loader \<Rightarrow> bool" where
  "found_inaccessible B C u0 L \<longleftrightarrow>
     check_protocol_availability C \<and>
     fst (check_protocol_available B C (check_url u0) L) = Returned False"

section \<open>A scripted backend\<close>

text \<open>
  A backend for running the orchestrator on concrete inputs: its state is the list of
  answers the attempts still have to give (an attempt beyond the script raises), the
  hooks succeed, the request is answered from the URL asked for, and the scheme of a
  URL is its text before the first colon.
\<close>

definition scripted :: "(LoadResult outcome list) backend" where
  "scripted =
     \<lparr>hook_setup = (\<lambda>b. (Returned True, b)),
      hook_teardown = (\<lambda>b. (Returned (), b)),
      hook_load_page = (\<lambda>u od i b. case b of [] \<Rightarrow> (Raised, []) | r # rs \<Rightarrow> (r, rs)),
      requests_get = (\<lambda>u t h b. (Get_Response u, b)),
      urlparse_scheme = (\<lambda>u. Returned (takeWhile (\<lambda>c. c \<noteq> CHR '':'') u))\<rparr>"

text \<open>Variations: a setup that answers \<open>False\<close>; a parser that rejects one URL (as
  \<open>urlparse\<close> rejects an unbalanced bracket in the host); a client that cannot
  connect; a client that connects while the script still holds answers.\<close>

definition setup_fails :: "(LoadResult outcome list) backend" where
  "setup_fails = scripted\<lparr>hook_setup := (\<lambda>b. (Returned False, b))\<rparr>"

definition parser_raises :: "(LoadResult outcome list) backend" where
  "parser_raises = scripted\<lparr>urlparse_scheme := (\<lambda>u. if u = ''http://['' then Raised else Returned ''http'')\<rparr>"

definition unreachable :: "(LoadResult outcome list) backend" where
  "unreachable = scripted\<lparr>requests_get := (\<lambda>u t h b. (Get_ConnectionError, b))\<rparr>"

definition reachable_once :: "(LoadResult outcome list) backend" where
  "reachable_once = scripted\<lparr>requests_get :=
     (\<lambda>u t h b. (if b = [] then Get_ConnectionError else Get_Response u, b))\<rparr>"

definition example_config :: config where
  "example_config =
     \<lparr>outdir = ''.'', num_trials = 1, timeout = 30, user_agent = None, restart_on_fail = False,
      save_har = False, retries_per_trial = 0, check_protocol_availability = True\<rparr>"

definition ok_result :: "string \<Rightarrow> LoadResult" where
  "ok_result u = (LoadResult_init LoadResult_SUCCESS u)\<lparr>lr_time := PyNum 1\<rparr>"

definition unknown_result :: "string \<Rightarrow> LoadResult" where
  "unknown_result u = LoadResult_init LoadResult_FAILURE_UNKNOWN u"

definition timeout_result :: "string \<Rightarrow> LoadResult" where
  "timeout_result u = LoadResult_init LoadResult_FAILURE_TIMEOUT u"

section \<open>Facts\<close>

declare try_loop.simps [simp del]

subsection \<open>Reading the journal\<close>

lemma load_page_outcomes_append [simp]:
  "load_page_outcomes (xs @ ys) = load_page_outcomes xs @ load_page_outcomes ys"
  by (induction xs rule: load_page_outcomes.induct) simp_all

lemma teardowns_append [simp]: "teardowns (xs @ ys) = teardowns xs + teardowns ys"
  by (simp add: teardowns_def)

lemma unknown_failures_append [simp]:
  "unknown_failures (xs @ ys) = unknown_failures xs + unknown_failures ys"
  by (simp add: unknown_failures_def)

lemma restarts_due_append [simp]:
  "restarts_due C (xs @ ys) = restarts_due C xs + restarts_due C ys"
  by (simp add: restarts_due_def)

lemma teardowns_Nil [simp]: "teardowns [] = 0"
  by (simp add: teardowns_def)

lemma restarts_due_Nil [simp]: "restarts_due C [] = 0"
  by (simp add: restarts_due_def unknown_failures_def)

lemma calls_since_append: "calls L' = calls L @ new \<Longrightarrow> calls_since L L' = new"
  by (simp add: calls_since_def)






lemma journal_ok_logged [simp]: "journal_ok B C L (L'\<lparr>logged := x\<rparr>) = journal_ok B C L L'"
  by (simp add: journal_ok_def)

subsection \<open>The table of results\<close>

lemma results_of_dd_append:
  "results_of (dd_append m k r) k' = (if k' = k then results_of m k @ [r] else results_of m k')"
  by (simp add: results_of_def dd_append_def dd_get_def split: option.splits)

lemma dd_append_other: "k' \<noteq> k \<Longrightarrow> dd_append m k r k' = m k'"
  by (simp add: dd_append_def dd_get_def split: option.splits)

lemma table_ext_refl: "table_ext u n L L"
  by (simp add: table_ext_def)

lemma table_ext_trans:
  assumes "table_ext u n1 L L1" and "table_ext u n2 L1 L2"
  shows "table_ext u (n1 + n2) L L2"
proof -
  from assms(1) obtain a where a: "results_of (load_results L1) u = results_of (load_results L) u @ a"
    "length a \<le> n1" "\<forall>k. k \<noteq> u \<longrightarrow> load_results L1 k = load_results L k"
    "page_results L1 = page_results L"
    unfolding table_ext_def by blast
  from assms(2) obtain b where b: "results_of (load_results L2) u = results_of (load_results L1) u @ b"
    "length b \<le> n2" "\<forall>k. k \<noteq> u \<longrightarrow> load_results L2 k = load_results L1 k"
    "page_results L2 = page_results L1"
    unfolding table_ext_def by blast
  have "results_of (load_results L2) u = results_of (load_results L) u @ (a @ b)"
    using a(1) b(1) by simp
  moreover have "length (a @ b) \<le> n1 + n2" using a(2) b(2) by simp
  moreover have "\<forall>k. k \<noteq> u \<longrightarrow> load_results L2 k = load_results L k" using a(3) b(3) by simp
  moreover have "page_results L2 = page_results L" using a(4) b(4) by simp
  ultimately show ?thesis unfolding table_ext_def by blast
qed

lemma table_ext_mono: "table_ext u n L L' \<Longrightarrow> n \<le> m \<Longrightarrow> table_ext u m L L'"
  unfolding table_ext_def by (meson le_trans)

lemma table_ext_logged [simp]: "table_ext u n L (L'\<lparr>logged := x\<rparr>) = table_ext u n L L'"
  by (simp add: table_ext_def)

subsection \<open>The hooks and the restart\<close>

lemma call_setup_eq:
  "call_setup B L = (fst (hook_setup B (backend_state L)),
     L\<lparr>backend_state := snd (hook_setup B (backend_state L)),
       calls := calls L @ [Call_setup (fst (hook_setup B (backend_state L)))]\<rparr>)"
  by (simp add: call_setup_def split: prod.splits)

lemma call_teardown_eq:
  "call_teardown B L = (fst (hook_teardown B (backend_state L)),
     L\<lparr>backend_state := snd (hook_teardown B (backend_state L)),
       calls := calls L @ [Call_teardown (fst (hook_teardown B (backend_state L)))]\<rparr>)"
  by (simp add: call_teardown_def split: prod.splits)

lemma call_load_page_eq:
  "call_load_page B u od i L = (fst (hook_load_page B u od i (backend_state L)),
     L\<lparr>backend_state := snd (hook_load_page B u od i (backend_state L)),
       calls := calls L @ [Call_load_page u od i (fst (hook_load_page B u od i (backend_state L)))]\<rparr>)"
  by (simp add: call_load_page_def split: prod.splits)

lemma restart_effect:
  assumes "restart B L = (x, L')"
  shows "urls L' = urls L" and "load_results L' = load_results L"
    and "page_results L' = page_results L" and "logged L' = logged L"
    and "\<exists>t ss. calls L' = calls L @ Call_teardown t # ss \<and> teardowns ss = 0 \<and>
           load_page_outcomes ss = [] \<and>
           (x = Raised \<longleftrightarrow> list_ex raised (Call_teardown t # ss)) \<and>
           num_restarts L' = num_restarts L + (if x = Raised then 0 else 1)"
    and "quiet B \<longrightarrow> x \<noteq> Raised"
  using assms
  by (auto simp: restart_def call_setup_eq call_teardown_eq teardowns_def quiet_def
      split: outcome.splits prod.splits)

subsection \<open>One pass of the attempt loop\<close>

lemma status_distinct [simp]:
  "LoadResult_SUCCESS \<noteq> LoadResult_FAILURE_UNKNOWN"
  "LoadResult_FAILURE_UNKNOWN \<noteq> LoadResult_SUCCESS"
  "LoadResult_FAILURE_TIMEOUT \<noteq> LoadResult_FAILURE_UNKNOWN"
  "LoadResult_FAILURE_TIMEOUT \<noteq> LoadResult_SUCCESS"
  by (simp_all add: LoadResult_SUCCESS_def LoadResult_FAILURE_UNKNOWN_def LoadResult_FAILURE_TIMEOUT_def)

lemma attempt_effect:
  assumes "attempt B C u i t L = (e, L')"
  shows "page_results L' = page_results L \<and>
    (\<exists>ans rest. calls L' = calls L @ Call_load_page u (outdir C) i ans # rest \<and>
        load_page_outcomes rest = [] \<and>
        (quiet B \<longrightarrow> \<not> list_ex raised rest) \<and>
        teardowns rest = (if restart_on_fail C \<and> has_status LoadResult_FAILURE_UNKNOWN ans then 1 else 0) \<and>
        (e = Escaped \<longleftrightarrow> list_ex raised (Call_load_page u (outdir C) i ans # rest)) \<and>
        (e = Break \<longleftrightarrow> has_status LoadResult_SUCCESS ans) \<and>
        num_restarts L' = num_restarts L +
          (if restart_on_fail C \<and> has_status LoadResult_FAILURE_UNKNOWN ans \<and> e \<noteq> Escaped then 1 else 0) \<and>
        (case ans of
           Raised \<Rightarrow> load_results L' = load_results L \<and> urls L' = urls L
         | Returned r \<Rightarrow>
             if lr_status r = LoadResult_SUCCESS \<or> t > retries_per_trial C
             then load_results L' = dd_append (load_results L) u r \<and> urls L' = urls L @ [u]
             else load_results L' = load_results L \<and> urls L' = urls L))"
proof -
  define o1 where "o1 = fst (hook_load_page B u (outdir C) i (backend_state L))"
  define L1 where "L1 = snd (call_load_page B u (outdir C) i L)"
  have clp: "call_load_page B u (outdir C) i L = (o1, L1)"
    by (simp add: o1_def L1_def call_load_page_eq)
  have L1: "calls L1 = calls L @ [Call_load_page u (outdir C) i o1]" "page_results L1 = page_results L"
    "load_results L1 = load_results L" "urls L1 = urls L" "num_restarts L1 = num_restarts L"
    by (simp_all add: o1_def L1_def call_load_page_eq)
  show ?thesis
  proof (cases o1)
    case Raised
    then have "e = Escaped" "L' = L1" using assms clp by (simp_all add: attempt_def)
    then show ?thesis using L1 Raised by simp
  next
    case (Returned r)
    show ?thesis
    proof (cases "lr_status r = LoadResult_SUCCESS")
      case True
      then have "e = Break" "L' = record_result u r L1"
        using assms clp Returned by (simp_all add: attempt_def)
      then show ?thesis using L1 Returned True by (simp add: record_result_def)
    next
      case False
      define L2 where "L2 = (if t > retries_per_trial C then record_result u r L1 else L1)"
      have L2: "calls L2 = calls L1" "page_results L2 = page_results L1" "num_restarts L2 = num_restarts L1"
        "if t > retries_per_trial C
         then load_results L2 = dd_append (load_results L) u r \<and> urls L2 = urls L @ [u]
         else load_results L2 = load_results L \<and> urls L2 = urls L"
        using L1 by (simp_all add: L2_def record_result_def)
      show ?thesis
      proof (cases "lr_status r = LoadResult_FAILURE_UNKNOWN \<and> restart_on_fail C")
        case no: False
        then have "e = Next" "L' = L2"
          using assms clp Returned False by (auto simp: attempt_def L2_def Let_def)
        then show ?thesis using L1 L2 Returned False no by auto
      next
        case yes: True
        obtain x L3 where r3: "restart B L2 = (x, L3)" by (cases "restart B L2")
        have e: "e = (if x = Raised then Escaped else Next)" "L' = L3"
          using assms clp Returned False yes r3
          by (auto simp: attempt_def L2_def Let_def split: outcome.splits)
        from restart_effect[OF r3] obtain tt ss where
          f: "urls L3 = urls L2" "load_results L3 = load_results L2" "page_results L3 = page_results L2"
          and c: "calls L3 = calls L2 @ Call_teardown tt # ss" "teardowns ss = 0"
            "load_page_outcomes ss = []"
            "(x = Raised) = list_ex raised (Call_teardown tt # ss)"
            "num_restarts L3 = num_restarts L2 + (if x = Raised then 0 else 1)"
            "quiet B \<longrightarrow> x \<noteq> Raised"
          by blast
        have "calls L' = calls L @ Call_load_page u (outdir C) i o1 # (Call_teardown tt # ss)"
          using e c L1 L2 by simp
        moreover have "load_page_outcomes (Call_teardown tt # ss) = []" using c by simp
        moreover have "quiet B \<longrightarrow> \<not> list_ex raised (Call_teardown tt # ss)" using c by simp
        moreover have "teardowns (Call_teardown tt # ss) = 1" using c by (simp add: teardowns_def)
        moreover have "(e = Escaped) = list_ex raised (Call_load_page u (outdir C) i o1 # Call_teardown tt # ss)"
          using e c Returned by simp
        moreover have "num_restarts L' = num_restarts L + (if e \<noteq> Escaped then 1 else 0)"
          using e c L1 L2 by simp
        moreover have "e \<noteq> Break" using e by simp
        moreover have "if t > retries_per_trial C
             then load_results L' = dd_append (load_results L) u r \<and> urls L' = urls L @ [u]
             else load_results L' = load_results L \<and> urls L' = urls L"
          using e f L2 by simp
        moreover have "page_results L' = page_results L" using e f L2 L1 by simp
        ultimately show ?thesis using Returned False yes
          by (intro conjI exI[of _ o1] exI[of _ "Call_teardown tt # ss"]) auto
      qed
    qed
  qed
qed

subsection \<open>The attempt loop\<close>

lemma final_result_single:
  "final_result n [Returned r] = (if lr_status r = LoadResult_SUCCESS \<or> n = 1 then Some r else None)"
  by (simp add: final_result_def)

lemma final_result_Raised: "final_result n [Raised] = None"
  by (simp add: final_result_def)

lemma final_result_Cons:
  "os \<noteq> [] \<Longrightarrow> final_result n (a # os) = final_result (n - 1) os"
  by (auto simp: final_result_def split: outcome.splits)

lemma final_result_Nil: "final_result n [] = None"
  by (simp add: final_result_def)

lemma try_loop_effect:
  "try_loop B C u i t L = (x, L') \<Longrightarrow> \<exists>new. loop_effect C u t L L' x new"
proof (induction B C u i t L arbitrary: x L' rule: try_loop.induct)
  case (1 B C u i t L)
  show ?case
  proof (cases "t \<le> retries_per_trial C")
    case False
    then have "x = Returned ()" "L' = L" using "1.prems" by (simp_all add: try_loop.simps)
    then have "loop_effect C u t L L' x []"
      using False by (simp add: loop_effect_def final_result_Nil)
    then show ?thesis ..
  next
    case True
    obtain e L1 where a: "attempt B C u i (t + 1) L = (e, L1)"
      by (cases "attempt B C u i (t + 1) L")
    from attempt_effect[OF a] obtain ans rest where
      pr: "page_results L1 = page_results L"
      and c: "calls L1 = calls L @ Call_load_page u (outdir C) i ans # rest"
      and lo: "load_page_outcomes rest = []"
      and esc: "(e = Escaped) = list_ex raised (Call_load_page u (outdir C) i ans # rest)"
      and brk: "(e = Break) = has_status LoadResult_SUCCESS ans"
      and tab: "case ans of
           Raised \<Rightarrow> load_results L1 = load_results L \<and> urls L1 = urls L
         | Returned r \<Rightarrow>
             if lr_status r = LoadResult_SUCCESS \<or> t + 1 > retries_per_trial C
             then load_results L1 = dd_append (load_results L) u r \<and> urls L1 = urls L @ [u]
             else load_results L1 = load_results L \<and> urls L1 = urls L"
      by blast
    let ?c = "Call_load_page u (outdir C) i ans"
    have os1: "load_page_outcomes (?c # rest) = [ans]" using lo by simp
    show ?thesis
    proof (cases e)
      case Break
      then have xl: "x = Returned ()" "L' = L1"
        using "1.prems" True a by (simp_all add: try_loop.simps)
      from Break brk obtain r where r: "ans = Returned r" "lr_status r = LoadResult_SUCCESS"
        by (cases ans) auto
      have "loop_effect C u t L L' x (?c # rest)"
        unfolding loop_effect_def os1
        using xl c pr True esc Break r tab by (simp add: final_result_single)
      then show ?thesis ..
    next
      case Escaped
      then have xl: "x = Raised" "L' = L1"
        using "1.prems" True a by (simp_all add: try_loop.simps)
      have nb: "\<not> has_status LoadResult_SUCCESS ans" using brk Escaped by simp
      have "loop_effect C u t L L' x (?c # rest)"
      proof (cases ans)
        case Raised
        then show ?thesis
          unfolding loop_effect_def os1
          using xl c pr True esc Escaped tab by (simp add: final_result_Raised)
      next
        case (Returned r)
        then have "lr_status r \<noteq> LoadResult_SUCCESS" using nb by simp
        then show ?thesis
          unfolding loop_effect_def os1
          using xl c pr True esc Escaped tab Returned
          by (auto simp: final_result_single)
      qed
      then show ?thesis ..
    next
      case Next
      then have rec: "try_loop B C u i (t + 1) L1 = (x, L')"
        using "1.prems" True a by (simp add: try_loop.simps)
      from "1.IH"[OF True a[symmetric] Next rec] obtain new2 where
        le: "loop_effect C u (t + 1) L1 L' x new2" by blast
      have nr: "\<not> list_ex raised (?c # rest)" using esc Next by simp
      then obtain r where r: "ans = Returned r" by (cases ans) auto
      have nb: "lr_status r \<noteq> LoadResult_SUCCESS" using brk Next r by simp
      let ?os2 = "load_page_outcomes new2"
      have os: "load_page_outcomes ((?c # rest) @ new2) = ans # ?os2" using lo by simp
      from le have l2: "calls L' = calls L1 @ new2" "page_results L' = page_results L1"
        "int (length ?os2) \<le> max 0 (retries_per_trial C + 1 - (t + 1))"
        "t + 1 \<le> retries_per_trial C \<longrightarrow> ?os2 \<noteq> []"
        "\<forall>a \<in> set (butlast ?os2). a \<noteq> Raised \<and> \<not> has_status LoadResult_SUCCESS a"
        "case final_result (retries_per_trial C + 1 - (t + 1)) ?os2 of
           Some r \<Rightarrow> load_results L' = dd_append (load_results L1) u r \<and> urls L' = urls L1 @ [u]
         | None \<Rightarrow> load_results L' = load_results L1 \<and> urls L' = urls L1"
        "x = Raised \<longleftrightarrow> list_ex raised new2"
        "\<not> list_ex raised new2 \<and> t + 1 \<le> retries_per_trial C \<longrightarrow>
           final_result (retries_per_trial C + 1 - (t + 1)) ?os2 \<noteq> None"
        unfolding loop_effect_def by blast+
      have g1: "calls L' = calls L @ ((?c # rest) @ new2)" using c l2(1) by simp
      have g2: "page_results L' = page_results L" using pr l2(2) by simp
      have g3: "int (length (ans # ?os2)) \<le> max 0 (retries_per_trial C + 1 - t)"
        using l2(3) True by simp
      have g5: "\<forall>a \<in> set (butlast (ans # ?os2)). a \<noteq> Raised \<and> \<not> has_status LoadResult_SUCCESS a"
        using l2(5) r nb by simp
      have g7: "x = Raised \<longleftrightarrow> list_ex raised ((?c # rest) @ new2)"
        using l2(7) nr by simp
      have g68: "(case final_result (retries_per_trial C + 1 - t) (ans # ?os2) of
           Some r \<Rightarrow> load_results L' = dd_append (load_results L) u r \<and> urls L' = urls L @ [u]
         | None \<Rightarrow> load_results L' = load_results L \<and> urls L' = urls L) \<and>
         (\<not> list_ex raised ((?c # rest) @ new2) \<and> t \<le> retries_per_trial C \<longrightarrow>
           final_result (retries_per_trial C + 1 - t) (ans # ?os2) \<noteq> None)"
      proof (cases "?os2 = []")
        case e2: True
        then have last: "\<not> t + 1 \<le> retries_per_trial C" using l2(4) by blast
        then have n1: "retries_per_trial C + 1 - t = 1" using True by simp
        have "load_results L' = load_results L1" "urls L' = urls L1"
          using l2(6) e2 by (simp_all add: final_result_Nil)
        moreover have "load_results L1 = dd_append (load_results L) u r \<and> urls L1 = urls L @ [u]"
          using tab r last by simp
        ultimately show ?thesis using e2 r n1 by (simp add: final_result_single)
      next
        case ne: False
        then have more: "t + 1 \<le> retries_per_trial C" using l2(3) by (cases "t + 1 \<le> retries_per_trial C") auto
        have same: "load_results L1 = load_results L" "urls L1 = urls L"
          using tab r nb more by simp_all
        have fr: "final_result (retries_per_trial C + 1 - t) (ans # ?os2)
                = final_result (retries_per_trial C + 1 - (t + 1)) ?os2"
          using final_result_Cons[OF ne, of "retries_per_trial C + 1 - t" ans]
          by (simp add: algebra_simps)
        show ?thesis unfolding fr using l2(6) l2(8) same more nr by (simp split: option.splits)
      qed
      have "loop_effect C u t L L' x ((?c # rest) @ new2)"
        unfolding loop_effect_def os
        using g1 g2 g3 g5 g7 g68 by simp
      then show ?thesis ..
    qed
  qed
qed



lemma try_loop_table_ext:
  assumes "try_loop B C u i t L = (x, L')"
  shows "table_ext u 1 L L'"
proof -
  from try_loop_effect[OF assms] obtain new where le: "loop_effect C u t L L' x new" by blast
  then have pr: "page_results L' = page_results L"
    and tab: "case final_result (retries_per_trial C + 1 - t) (load_page_outcomes new) of
        Some r \<Rightarrow> load_results L' = dd_append (load_results L) u r \<and> urls L' = urls L @ [u]
      | None \<Rightarrow> load_results L' = load_results L \<and> urls L' = urls L"
    unfolding loop_effect_def by blast+
  show ?thesis
  proof (cases "final_result (retries_per_trial C + 1 - t) (load_page_outcomes new)")
    case None
    then have "load_results L' = load_results L" using tab by simp
    then show ?thesis using pr by (simp add: table_ext_def)
  next
    case (Some r)
    then have lr: "load_results L' = dd_append (load_results L) u r" using tab by simp
    have "results_of (load_results L') u = results_of (load_results L) u @ [r]"
      by (simp add: lr results_of_dd_append)
    moreover have "\<forall>k. k \<noteq> u \<longrightarrow> load_results L' k = load_results L k"
      by (simp add: lr dd_append_other)
    ultimately show ?thesis unfolding table_ext_def using pr
      by (intro exI[of _ "[r]"]) simp
  qed
qed

subsection \<open>One trial, all trials of a URL\<close>


lemma trial_table_ext: "table_ext u 1 L (trial B C u i L)"
proof -
  obtain x L1 where t: "try_loop B C u i 0 L = (x, L1)" by (cases "try_loop B C u i 0 L")
  have "table_ext u 1 L L1" by (rule try_loop_table_ext[OF t])
  then show ?thesis using t by (cases x) (simp_all add: trial_def)
qed


lemma fold_trial_table_ext: "table_ext u (length is) L (fold (\<lambda>i. trial B C u i) is L)"
proof (induction "is" arbitrary: L)
  case Nil
  show ?case by (simp add: table_ext_refl)
next
  case (Cons i "is")
  have "table_ext u 1 L (trial B C u i L)" by (rule trial_table_ext)
  moreover have "table_ext u (length is) (trial B C u i L) (fold (\<lambda>i. trial B C u i) is (trial B C u i L))"
    by (rule Cons.IH)
  ultimately have "table_ext u (1 + length is) L (fold (\<lambda>i. trial B C u i) is (trial B C u i L))"
    by (rule table_ext_trans)
  then show ?case by simp
qed

lemma length_upto: "length [0 .. n - 1] = nat n"
  by simp


lemma trials_table_ext: "table_ext u (nat (num_trials C)) L (trials B C u L)"
  unfolding trials_def using fold_trial_table_ext[of u "[0 .. num_trials C - 1]" L B C]
  by simp

subsection \<open>The summary of a URL\<close>

lemma SUCCESS_same: "PageResult_SUCCESS = LoadResult_SUCCESS"
  by (simp add: PageResult_SUCCESS_def LoadResult_SUCCESS_def)

lemma fold_PageResult_step:
  "fold PageResult_step rs (f, s, p) =
     (f \<or> (\<exists>r\<in>set rs. lr_status r \<noteq> PageResult_SUCCESS),
      s \<or> (\<exists>r\<in>set rs. lr_status r = PageResult_SUCCESS),
      p\<lparr>pr_times := pr_times p @ map lr_time (filter (\<lambda>r. lr_status r = PageResult_SUCCESS \<and> truthy (lr_time r)) rs),
        pr_sizes := pr_sizes p @ map lr_size (filter (\<lambda>r. lr_status r = PageResult_SUCCESS \<and> truthy (lr_size r)) rs),
        pr_tcp_fast_open_support_statuses := pr_tcp_fast_open_support_statuses p @
           map lr_tcp_fast_open_supported (filter (\<lambda>r. lr_status r = PageResult_SUCCESS) rs)\<rparr>)"
proof (induction rs arbitrary: f s p)
  case Nil
  show ?case by simp
next
  case (Cons r rs)
  show ?case
  proof (cases "lr_status r = PageResult_SUCCESS")
    case True
    have "fold PageResult_step (r # rs) (f, s, p) = fold PageResult_step rs (PageResult_step r (f, s, p))"
      by simp
    also have "PageResult_step r (f, s, p) =
        (f, True, p\<lparr>pr_times := pr_times p @ (if truthy (lr_time r) then [lr_time r] else []),
                   pr_sizes := pr_sizes p @ (if truthy (lr_size r) then [lr_size r] else []),
                   pr_tcp_fast_open_support_statuses :=
                     pr_tcp_fast_open_support_statuses p @ [lr_tcp_fast_open_supported r]\<rparr>)"
      using True by (simp add: PageResult_step_def Let_def)
    finally show ?thesis using True by (simp add: Cons.IH)
  next
    case False
    have "fold PageResult_step (r # rs) (f, s, p) = fold PageResult_step rs (PageResult_step r (f, s, p))"
      by simp
    also have "PageResult_step r (f, s, p) = (True, s, p)"
      using False by (simp add: PageResult_step_def)
    finally show ?thesis using False by (simp add: Cons.IH)
  qed
qed

lemma PageResult_init_times:
  "pr_times (PageResult_init u None (Some rs)) =
     map lr_time (filter (\<lambda>r. lr_status r = LoadResult_SUCCESS \<and> truthy (lr_time r)) rs)"
  by (cases "rs = []") (simp_all add: PageResult_init_def Let_def fold_PageResult_step SUCCESS_same)

lemma PageResult_init_status:
  "pr_status (PageResult_init u None (Some rs)) =
     (if rs = [] then PageResult_FAILURE_UNSET
      else if (\<exists>r\<in>set rs. lr_status r \<noteq> LoadResult_SUCCESS) \<and> (\<exists>r\<in>set rs. lr_status r = LoadResult_SUCCESS)
           then PageResult_PARTIAL_SUCCESS
      else if (\<exists>r\<in>set rs. lr_status r = LoadResult_SUCCESS) then PageResult_SUCCESS
      else PageResult_FAILURE_UNKNOWN)"
  by (simp add: PageResult_init_def Let_def fold_PageResult_step SUCCESS_same)

lemma PageResult_init_override:
  "st \<noteq> [] \<Longrightarrow> pr_status (PageResult_init u (Some st) None) = st"
  "pr_times (PageResult_init u (Some st) None) = []"
  by (simp_all add: PageResult_init_def Let_def)

lemma page_status_distinct:
  "PageResult_SUCCESS \<noteq> PageResult_PARTIAL_SUCCESS"
  "PageResult_SUCCESS \<noteq> PageResult_FAILURE_UNKNOWN"
  "PageResult_SUCCESS \<noteq> PageResult_FAILURE_UNSET"
  "PageResult_FAILURE_NOT_ACCESSIBLE \<noteq> PageResult_SUCCESS"
  "PageResult_FAILURE_NOT_ACCESSIBLE \<noteq> PageResult_PARTIAL_SUCCESS"
  "PageResult_FAILURE_NOT_ACCESSIBLE \<noteq> PageResult_FAILURE_UNKNOWN"
  "PageResult_FAILURE_NOT_ACCESSIBLE \<noteq> PageResult_FAILURE_UNSET"
  "PageResult_FAILURE_NOT_ACCESSIBLE \<noteq> []"
  by (simp_all add: PageResult_SUCCESS_def PageResult_PARTIAL_SUCCESS_def
      PageResult_FAILURE_UNKNOWN_def PageResult_FAILURE_UNSET_def
      PageResult_FAILURE_NOT_ACCESSIBLE_def)


text \<open>
  C3 (as stated): over any list of trial results, all non-success gives UnknownFailure,
  all Success gives Success, and the status is Success exactly when every result is
  Success. At the empty list every result is a success and every result is a
  non-success, and the summary built from it is neither: its status stays at
  FAILURE_UNSET.
\<close>

theorem PageResult_status_empty_counterexample:
  "pr_status (PageResult_init ''http://a.com'' None (Some [])) = PageResult_FAILURE_UNSET \<and>
   pr_status (PageResult_init ''http://a.com'' None (Some [])) \<noteq> PageResult_FAILURE_UNKNOWN \<and>
   pr_status (PageResult_init ''http://a.com'' None (Some [])) \<noteq> PageResult_SUCCESS"
  by (simp add: PageResult_init_def Let_def PageResult_FAILURE_UNSET_def PageResult_FAILURE_UNKNOWN_def
      PageResult_SUCCESS_def)

text \<open>
  C3 (amended): for every non-empty list of trial results aggregated without a status
  override, the summary is UnknownFailure if no result is a Success, Success if every
  result is a Success, PartialSuccess if there is a Success and a non-success; so its
  status is Success exactly when every result is a Success.
\<close>

theorem PageResult_status_derivation:
  assumes "rs \<noteq> []"
  shows "((\<forall>r\<in>set rs. lr_status r \<noteq> LoadResult_SUCCESS) \<longrightarrow>
            pr_status (PageResult_init u None (Some rs)) = PageResult_FAILURE_UNKNOWN) \<and>
         ((\<forall>r\<in>set rs. lr_status r = LoadResult_SUCCESS) \<longrightarrow>
            pr_status (PageResult_init u None (Some rs)) = PageResult_SUCCESS) \<and>
         ((\<exists>r\<in>set rs. lr_status r = LoadResult_SUCCESS) \<and> (\<exists>r\<in>set rs. lr_status r \<noteq> LoadResult_SUCCESS) \<longrightarrow>
            pr_status (PageResult_init u None (Some rs)) = PageResult_PARTIAL_SUCCESS) \<and>
         (pr_status (PageResult_init u None (Some rs)) = PageResult_SUCCESS \<longleftrightarrow>
            (\<forall>r\<in>set rs. lr_status r = LoadResult_SUCCESS))"
proof -
  obtain r0 where r0: "r0 \<in> set rs" using assms by (cases rs) auto
  have a: "(\<forall>r\<in>set rs. lr_status r \<noteq> LoadResult_SUCCESS) \<longrightarrow>
            pr_status (PageResult_init u None (Some rs)) = PageResult_FAILURE_UNKNOWN"
    using assms by (simp add: PageResult_init_status)
  have b: "(\<forall>r\<in>set rs. lr_status r = LoadResult_SUCCESS) \<longrightarrow>
            pr_status (PageResult_init u None (Some rs)) = PageResult_SUCCESS"
    using assms r0 by (auto simp: PageResult_init_status)
  have c: "(\<exists>r\<in>set rs. lr_status r = LoadResult_SUCCESS) \<and> (\<exists>r\<in>set rs. lr_status r \<noteq> LoadResult_SUCCESS) \<longrightarrow>
            pr_status (PageResult_init u None (Some rs)) = PageResult_PARTIAL_SUCCESS"
    using assms by (simp add: PageResult_init_status)
  have d: "pr_status (PageResult_init u None (Some rs)) = PageResult_SUCCESS \<longrightarrow>
            (\<forall>r\<in>set rs. lr_status r = LoadResult_SUCCESS)"
    using assms page_status_distinct(1,2)
    by (auto simp: PageResult_init_status split: if_splits)
  from a b c d show ?thesis by blast
qed

theorem PageResult_status_derivation_witness:
  "pr_status (PageResult_init ''http://a.com'' None
      (Some [unknown_result ''http://a.com'', timeout_result ''http://a.com''])) = PageResult_FAILURE_UNKNOWN \<and>
   pr_status (PageResult_init ''http://a.com'' None
      (Some [ok_result ''http://a.com'', ok_result ''http://a.com''])) = PageResult_SUCCESS \<and>
   pr_status (PageResult_init ''http://a.com'' None
      (Some [ok_result ''http://a.com'', timeout_result ''http://a.com''])) = PageResult_PARTIAL_SUCCESS"
proof -
  let ?u = "''http://a.com''"
  have s: "lr_status (ok_result ?u) = LoadResult_SUCCESS"
    "lr_status (unknown_result ?u) \<noteq> LoadResult_SUCCESS"
    "lr_status (timeout_result ?u) \<noteq> LoadResult_SUCCESS"
    by (simp_all add: ok_result_def unknown_result_def timeout_result_def LoadResult_init_def)
  have "pr_status (PageResult_init ?u None (Some [unknown_result ?u, timeout_result ?u])) = PageResult_FAILURE_UNKNOWN"
    using PageResult_status_derivation[of "[unknown_result ?u, timeout_result ?u]" ?u] s by simp
  moreover have "pr_status (PageResult_init ?u None (Some [ok_result ?u, ok_result ?u])) = PageResult_SUCCESS"
    using PageResult_status_derivation[of "[ok_result ?u, ok_result ?u]" ?u] s by simp
  moreover have "pr_status (PageResult_init ?u None (Some [ok_result ?u, timeout_result ?u])) = PageResult_PARTIAL_SUCCESS"
    using PageResult_status_derivation[of "[ok_result ?u, timeout_result ?u]" ?u] s by auto
  ultimately show ?thesis by blast
qed

subsection \<open>The sanitized URL\<close>

lemma class_members_class_body:
  "class_members class_body = ''/;,><&*:%=+@!#^()|?^''"
  by (simp add: class_body_def)

lemma sanitize_url_char:
  "sanitize_url u = map (\<lambda>c. if c \<in> set ''/;,><&*:%=+@!#^()|?'' then CHR ''-'' else c) u"
  by (simp add: sanitize_url_def class_members_class_body) 

text \<open>
  C9: every occurrence of each character of the set, the backslash among them, is
  replaced with a hyphen. The character class of the pattern holds a backslash
  followed by a semicolon, which the pattern language reads as the semicolon alone:
  a backslash in a URL is left in place.
\<close>

theorem sanitize_url_keeps_backslash:
  "sanitize_url (''http://a.com/x'' @ [CHR 0x5C] @ ''y'') = ''http---a.com-x'' @ [CHR 0x5C] @ ''y''"
  by (simp add: sanitize_url_def class_members_class_body)

subsection \<open>The protocol check\<close>

lemma check_protocol_available_effect:
  assumes "check_protocol_available B C u L = (x, L')"
  shows "urls L' = urls L \<and> load_results L' = load_results L \<and> page_results L' = page_results L \<and>
         num_restarts L' = num_restarts L \<and>
         (\<exists>new. calls L' = calls L @ new \<and> load_page_outcomes new = [] \<and> teardowns new = 0 \<and>
            \<not> list_ex raised new \<and> \<not> list_ex is_setup new)"
  using assms
  by (auto simp: check_protocol_available_def Let_def teardowns_def
      split: outcome.splits prod.splits get_outcome.splits)


lemma check_protocol_available_logged:
  "fst (check_protocol_available B C u (L\<lparr>logged := l\<rparr>)) = fst (check_protocol_available B C u L)"
  by (auto simp: check_protocol_available_def Let_def
      split: outcome.splits prod.splits get_outcome.splits)


lemma check_protocol_available_table_ext:
  assumes "check_protocol_available B C u L = (x, L')"
  shows "table_ext k 0 L L'"
  using check_protocol_available_effect[OF assms] by (simp add: table_ext_def)

subsection \<open>One URL\<close>

lemma save_page_result_effect:
  "page_results (save_page_result u L) =
     (page_results L)(u \<mapsto> PageResult_init u None (Some (results_of (load_results L) u)))"
  "results_of (load_results (save_page_result u L)) k = results_of (load_results L) k"
  "k \<noteq> u \<Longrightarrow> load_results (save_page_result u L) k = load_results L k"
  "calls (save_page_result u L) = calls L"
  "num_restarts (save_page_result u L) = num_restarts L"
  by (simp_all add: save_page_result_def dd_get_def results_of_def split: option.splits)

lemma journal_ok_save [simp]: "journal_ok B C L (save_page_result u L') = journal_ok B C L L'"
  by (simp add: journal_ok_def save_page_result_effect)

lemma journal_ok_not_accessible [simp]: "journal_ok B C L (not_accessible u L') = journal_ok B C L L'"
  by (simp add: journal_ok_def not_accessible_def)

lemma journal_ok_logged_left [simp]: "journal_ok B C (L\<lparr>logged := x\<rparr>) L' = journal_ok B C L L'"
  by (simp add: journal_ok_def)


lemma table_ext_logged_left [simp]: "table_ext u n (L\<lparr>logged := x\<rparr>) L' = table_ext u n L L'"
  by (simp add: table_ext_def)

text \<open>What processing one URL does to the two tables.\<close>

lemma process_url_tables:
  assumes "process_url B C u0 L = (x, L')"
  shows "(\<exists>new. results_of (load_results L') (check_url u0) = results_of (load_results L) (check_url u0) @ new \<and>
            length new \<le> nat (num_trials C)) \<and>
         (\<forall>k. k \<noteq> check_url u0 \<longrightarrow> load_results L' k = load_results L k) \<and>
         (x = Raised \<longrightarrow> page_results L' = page_results L) \<and>
         (x \<noteq> Raised \<longrightarrow> page_results L' = (page_results L)(check_url u0 \<mapsto>
            (if found_inaccessible B C u0 L
             then PageResult_init (check_url u0) (Some PageResult_FAILURE_NOT_ACCESSIBLE) None
             else PageResult_init (check_url u0) None (Some (results_of (load_results L') (check_url u0)))))) \<and>
         (found_inaccessible B C u0 L \<longrightarrow> x \<noteq> Raised \<and> load_results L' = load_results L \<and>
            num_restarts L' = num_restarts L \<and>
            (\<exists>new. calls L' = calls L @ new \<and> load_page_outcomes new = [] \<and> teardowns new = 0 \<and>
               \<not> list_ex is_setup new))"
proof -
  let ?u = "check_url u0"
  define L0 where "L0 = (if \<not> str_contains ''://'' u0 then L\<lparr>logged := logged L @ [Log_no_protocol u0]\<rparr> else L)"
  have L0: "load_results L0 = load_results L" "page_results L0 = page_results L"
    "calls L0 = calls L" "num_restarts L0 = num_restarts L"
    by (simp_all add: L0_def)
  have fi: "found_inaccessible B C u0 L \<longleftrightarrow>
      check_protocol_availability C \<and> fst (check_protocol_available B C ?u L0) = Returned False"
    by (simp add: found_inaccessible_def L0_def check_protocol_available_logged)
  have loaded: "?thesis" if nf: "\<not> found_inaccessible B C u0 L"
    and x: "x = Returned ()" and L': "L' = save_page_result ?u (trials B C ?u L1)"
    and L1: "load_results L1 = load_results L" "page_results L1 = page_results L" for L1
  proof -
    let ?T = "trials B C ?u L1"
    from trials_table_ext[of ?u C L1 B] obtain new where
      n: "results_of (load_results ?T) ?u = results_of (load_results L1) ?u @ new"
      "length new \<le> nat (num_trials C)" "\<forall>k. k \<noteq> ?u \<longrightarrow> load_results ?T k = load_results L1 k"
      "page_results ?T = page_results L1"
      unfolding table_ext_def by blast
    have "results_of (load_results L') ?u = results_of (load_results L) ?u @ new"
      using n(1) L1 by (simp add: L' save_page_result_effect)
    moreover have "\<forall>k. k \<noteq> ?u \<longrightarrow> load_results L' k = load_results L k"
      using n(3) L1 by (simp add: L' save_page_result_effect)
    moreover have "page_results L' = (page_results L)(?u \<mapsto>
        PageResult_init ?u None (Some (results_of (load_results L') ?u)))"
      using n(4) L1 by (simp add: L' save_page_result_effect)
    ultimately show ?thesis using nf x n(2) by auto
  qed
  show ?thesis
  proof (cases "check_protocol_availability C")
    case False
    then have "x = Returned ()" "L' = save_page_result ?u (trials B C ?u L0)"
      using assms by (auto simp: process_url_def L0_def Let_def run_trials_def)
    moreover have "\<not> found_inaccessible B C u0 L" using False fi by simp
    ultimately show ?thesis using loaded L0 by blast
  next
    case True
    obtain y L1 where c: "check_protocol_available B C ?u L0 = (y, L1)"
      by (cases "check_protocol_available B C ?u L0")
    from check_protocol_available_effect[OF c] obtain new where
      e: "load_results L1 = load_results L" "page_results L1 = page_results L"
         "num_restarts L1 = num_restarts L" "calls L1 = calls L @ new" "load_page_outcomes new = []"
         "teardowns new = 0" "\<not> list_ex is_setup new"
      using L0 by auto
    show ?thesis
    proof (cases y)
      case Raised
      then have "x = Raised" "L' = L1" using assms True c by (simp_all add: process_url_def L0_def Let_def)
      moreover have "\<not> found_inaccessible B C u0 L" using fi c Raised by simp
      ultimately show ?thesis using e by simp
    next
      case (Returned ok)
      show ?thesis
      proof (cases ok)
        case False
        then have xl: "x = Returned ()" "L' = not_accessible ?u L1"
          using assms True c Returned by (simp_all add: process_url_def L0_def Let_def)
        have f: "found_inaccessible B C u0 L" using fi c Returned False True by simp
        have "calls L' = calls L @ new" using xl e by (simp add: not_accessible_def)
        then have "\<exists>new. calls L' = calls L @ new \<and> load_page_outcomes new = [] \<and> teardowns new = 0 \<and>
               \<not> list_ex is_setup new" using e by blast
        then show ?thesis using xl e f by (simp add: not_accessible_def)
      next
        case ok: True
        then have "x = Returned ()" "L' = save_page_result ?u (trials B C ?u L1)"
          using assms True c Returned by (simp_all add: process_url_def L0_def Let_def run_trials_def)
        moreover have "\<not> found_inaccessible B C u0 L" using fi c Returned ok by simp
        ultimately show ?thesis using loaded e by blast
      qed
    qed
  qed
qed


subsection \<open>The loop over the URLs\<close>



text \<open>
  Every summary holds at most as many times as the table holds results for its URL.
\<close>

lemma times_le_results:
  "length (pr_times (PageResult_init u None (Some rs))) \<le> length rs"
  by (simp add: PageResult_init_times)

lemma process_url_bound:
  assumes p: "process_url B C u0 L = (x, L')"
    and inv: "\<forall>k q. page_results L k = Some q \<longrightarrow> length (pr_times q) \<le> length (results_of (load_results L) k)"
  shows "(\<forall>k q. page_results L' k = Some q \<longrightarrow> length (pr_times q) \<le> length (results_of (load_results L') k)) \<and>
         (\<forall>k. length (results_of (load_results L') k) \<le>
                length (results_of (load_results L) k) + (if k = check_url u0 then nat (num_trials C) else 0))"
proof -
  let ?u = "check_url u0"
  from process_url_tables[OF p] obtain new where
    n: "results_of (load_results L') ?u = results_of (load_results L) ?u @ new" "length new \<le> nat (num_trials C)"
    and o: "\<forall>k. k \<noteq> ?u \<longrightarrow> load_results L' k = load_results L k"
    and r: "x = Raised \<longrightarrow> page_results L' = page_results L"
    and s: "x \<noteq> Raised \<longrightarrow> page_results L' = (page_results L)(?u \<mapsto>
            (if found_inaccessible B C u0 L
             then PageResult_init ?u (Some PageResult_FAILURE_NOT_ACCESSIBLE) None
             else PageResult_init ?u None (Some (results_of (load_results L') ?u))))"
    by blast
  have o': "\<And>k. k \<noteq> ?u \<Longrightarrow> results_of (load_results L') k = results_of (load_results L) k"
    using o by (simp add: results_of_def)
  have b: "\<forall>k. length (results_of (load_results L') k) \<le>
                length (results_of (load_results L) k) + (if k = ?u then nat (num_trials C) else 0)"
    using n o' by auto
  have i: "length (pr_times q) \<le> length (results_of (load_results L') k)"
    if q: "page_results L' k = Some q" for k q
  proof (cases "k = ?u")
    case False
    then have "page_results L k = Some q" using q r s by (cases "x = Raised") auto
    then show ?thesis using inv o'[OF False] by simp
  next
    case True
    show ?thesis
    proof (cases "x = Raised")
      case True
      then have "page_results L k = Some q" using q r by simp
      then have "length (pr_times q) \<le> length (results_of (load_results L) k)" using inv by simp
      then show ?thesis using n \<open>k = ?u\<close> by simp
    next
      case False
      then have "q = (if found_inaccessible B C u0 L
             then PageResult_init ?u (Some PageResult_FAILURE_NOT_ACCESSIBLE) None
             else PageResult_init ?u None (Some (results_of (load_results L') ?u)))"
        using q s True by simp
      then show ?thesis using True times_le_results
        by (auto simp: PageResult_init_override)
    qed
  qed
  from i b show ?thesis by blast
qed

lemma for_urls_bound:
  assumes "for_urls B C us L = (x, L')"
    and "\<forall>k q. page_results L k = Some q \<longrightarrow> length (pr_times q) \<le> length (results_of (load_results L) k)"
  shows "(\<forall>k q. page_results L' k = Some q \<longrightarrow> length (pr_times q) \<le> length (results_of (load_results L') k)) \<and>
         (\<forall>k. length (results_of (load_results L') k) \<le>
                length (results_of (load_results L) k) + count_list (map check_url us) k * nat (num_trials C))"
  using assms
proof (induction us arbitrary: L)
  case Nil
  then show ?case by simp
next
  case (Cons u us)
  obtain y L1 where p: "process_url B C u L = (y, L1)" by (cases "process_url B C u L")
  note b1 = process_url_bound[OF p Cons.prems(2)]
  show ?case
  proof (cases y)
    case Raised
    then have "L' = L1" using Cons.prems(1) p by simp
    then show ?thesis using b1 by (auto intro: le_trans)
  next
    case (Returned v)
    then have f: "for_urls B C us L1 = (x, L')" using Cons.prems(1) p by simp
    from b1 have inv1: "\<forall>k q. page_results L1 k = Some q \<longrightarrow>
        length (pr_times q) \<le> length (results_of (load_results L1) k)" by blast
    note b2 = Cons.IH[OF f inv1]
    have "length (results_of (load_results L') k) \<le>
          length (results_of (load_results L) k) + count_list (map check_url (u # us)) k * nat (num_trials C)" for k
    proof -
      have "length (results_of (load_results L') k) \<le>
          length (results_of (load_results L1) k) + count_list (map check_url us) k * nat (num_trials C)"
        using b2 by blast
      moreover have "length (results_of (load_results L1) k) \<le>
          length (results_of (load_results L) k) + (if k = check_url u then nat (num_trials C) else 0)"
        using b1 by blast
      ultimately show ?thesis by (auto simp: algebra_simps)
    qed
    then show ?thesis using b2 by blast
  qed
qed

subsection \<open>The run\<close>

lemma load_pages_body_setup_not_true:
  assumes "fst (hook_setup B (backend_state L)) \<noteq> Returned True"
  shows "urls (snd (load_pages_body B C us L)) = urls L"
    and "load_results (snd (load_pages_body B C us L)) = load_results L"
    and "page_results (snd (load_pages_body B C us L)) = page_results L"
    and "num_restarts (snd (load_pages_body B C us L)) = num_restarts L"
    and "calls (snd (load_pages_body B C us L)) = calls L @ [Call_setup (fst (hook_setup B (backend_state L)))]"
    and "backend_state (snd (load_pages_body B C us L)) = snd (hook_setup B (backend_state L))"
  using assms
  by (auto simp: load_pages_body_def call_setup_eq split: outcome.splits)

lemma load_pages_body_setup_true:
  assumes "fst (hook_setup B (backend_state L)) = Returned True"
  shows "load_pages_body B C us L =
     for_urls B C us (L\<lparr>backend_state := snd (hook_setup B (backend_state L)),
                        calls := calls L @ [Call_setup (Returned True)]\<rparr>)"
  using assms by (simp add: load_pages_body_def call_setup_eq)

lemma load_pages_body_Nil:
  "urls (snd (load_pages_body B C [] L)) = urls L"
  "load_results (snd (load_pages_body B C [] L)) = load_results L"
  "page_results (snd (load_pages_body B C [] L)) = page_results L"
  "num_restarts (snd (load_pages_body B C [] L)) = num_restarts L"
  "calls (snd (load_pages_body B C [] L)) = calls L @ [Call_setup (fst (hook_setup B (backend_state L)))]"
  "backend_state (snd (load_pages_body B C [] L)) = snd (hook_setup B (backend_state L))"
  by (auto simp: load_pages_body_def call_setup_eq split: outcome.splits)



text \<open>The state before the closing teardown: the block's, with the handler's message.\<close>

lemma load_pages_eq:
  "load_pages B C us L =
     call_teardown B
       (if fst (load_pages_body B C us L) = Raised
        then (snd (load_pages_body B C us L))\<lparr>logged := logged (snd (load_pages_body B C us L)) @ [Log_error_loading_pages]\<rparr>
        else snd (load_pages_body B C us L))"
  by (cases "load_pages_body B C us L") (auto simp: load_pages_def split: outcome.splits)

lemma load_pages_fields:
  "urls (snd (load_pages B C us L)) = urls (snd (load_pages_body B C us L))"
  "load_results (snd (load_pages B C us L)) = load_results (snd (load_pages_body B C us L))"
  "page_results (snd (load_pages B C us L)) = page_results (snd (load_pages_body B C us L))"
  "num_restarts (snd (load_pages B C us L)) = num_restarts (snd (load_pages_body B C us L))"
  "calls (snd (load_pages B C us L)) = calls (snd (load_pages_body B C us L)) @
     [Call_teardown (fst (hook_teardown B (backend_state (snd (load_pages_body B C us L)))))]"
  by (simp_all add: load_pages_eq call_teardown_eq)

subsection \<open>Running the orchestrator on concrete inputs\<close>

lemmas run_defs =
  load_pages_def load_pages_body_def call_setup_def call_teardown_def call_load_page_def
  process_url_def check_url_def check_protocol_available_def run_trials_def trials_def trial_def
  try_loop.simps attempt_def restart_def record_result_def not_accessible_def
  save_page_result_def dd_get_def dd_append_def upto.simps Let_def
  Loader_init_def scripted_def setup_fails_def parser_raises_def unreachable_def reachable_once_def
  example_config_def ok_result_def unknown_result_def timeout_result_def LoadResult_init_def
  LoadResult_SUCCESS_def LoadResult_FAILURE_UNKNOWN_def LoadResult_FAILURE_TIMEOUT_def
  calls_since_def











text \<open>
  C10 (as stated): the later occurrence's summary is computed from the trial results of
  all occurrences processed so far. Here the same URL is submitted twice; the first
  occurrence is loaded (one success), the second is found not accessible: its summary
  replaces the first one, but it is the NotAccessible summary with no times, and not
  the one computed from the result the table holds for the URL.
\<close>

theorem duplicate_url_not_accessible_counterexample:
  "results_of (load_results (snd (load_pages reachable_once example_config [''http://a.com'', ''http://a.com'']
      (Loader_init [Returned (ok_result ''http://a.com'')])))) ''http://a.com'' = [ok_result ''http://a.com''] \<and>
   page_results (snd (load_pages reachable_once example_config [''http://a.com'', ''http://a.com'']
      (Loader_init [Returned (ok_result ''http://a.com'')]))) ''http://a.com''
     = Some (PageResult_init ''http://a.com'' (Some PageResult_FAILURE_NOT_ACCESSIBLE) None) \<and>
   pr_times (PageResult_init ''http://a.com'' (Some PageResult_FAILURE_NOT_ACCESSIBLE) None) = [] \<and>
   pr_times (PageResult_init ''http://a.com'' None (Some [ok_result ''http://a.com''])) = [PyNum 1]"
  by (simp add: run_defs results_of_def PageResult_init_def PageResult_step_def PageResult_SUCCESS_def)

text \<open>
  C10 (amended): trial results are accumulated in a table keyed by the normalized URL.
  Whenever a URL is processed and loaded (the check is off, or the prober answered
  true), the results of its trials, at most num_trials of them, are appended to the
  list the table already holds for it, the summary stored is computed from the whole
  list, and it replaces the summary stored before; no other list and no other summary
  changes. (An occurrence found not accessible stores the NotAccessible summary
  instead and leaves the list as it is.)
\<close>

theorem duplicate_url_accumulates:
  assumes "process_url B C u0 L = (Returned (), L')"
    and "\<not> (check_protocol_availability C \<and>
            fst (check_protocol_available B C (check_url u0) L) = Returned False)"
  shows "take (length (results_of (load_results L) (check_url u0))) (results_of (load_results L') (check_url u0))
           = results_of (load_results L) (check_url u0) \<and>
         length (results_of (load_results L') (check_url u0))
           \<le> length (results_of (load_results L) (check_url u0)) + nat (num_trials C) \<and>
         page_results L' = (page_results L)(check_url u0 \<mapsto>
           PageResult_init (check_url u0) None (Some (results_of (load_results L') (check_url u0)))) \<and>
         (\<forall>k. k \<noteq> check_url u0 \<longrightarrow> load_results L' k = load_results L k)"
proof -
  have nf: "\<not> found_inaccessible B C u0 L" using assms(2) by (simp add: found_inaccessible_def)
  from process_url_tables[OF assms(1)] nf obtain new where
    "results_of (load_results L') (check_url u0) = results_of (load_results L) (check_url u0) @ new"
    "length new \<le> nat (num_trials C)"
    "\<forall>k. k \<noteq> check_url u0 \<longrightarrow> load_results L' k = load_results L k"
    "page_results L' = (page_results L)(check_url u0 \<mapsto>
           PageResult_init (check_url u0) None (Some (results_of (load_results L') (check_url u0))))"
    by auto
  then show ?thesis by simp
qed

theorem duplicate_url_accumulates_witness:
  "page_results (snd (load_pages scripted example_config [''http://a.com'', ''http://a.com'']
      (Loader_init [Returned (ok_result ''http://a.com''), Returned (timeout_result ''http://a.com'')])))
     ''http://a.com''
   = Some (PageResult_init ''http://a.com'' None
       (Some [ok_result ''http://a.com'', timeout_result ''http://a.com'']))"
proof -
  let ?u = "''http://a.com''"
  let ?L0 = "Loader_init [Returned (ok_result ?u), Returned (timeout_result ?u)]"
  let ?S = "?L0\<lparr>calls := [Call_setup (Returned True)]\<rparr>"
  let ?L1 = "snd (process_url scripted example_config ?u ?S)"
  let ?L2 = "snd (process_url scripted example_config ?u ?L1)"
  have u: "check_url ?u = ?u" by (simp add: check_url_def)
  have p1: "process_url scripted example_config ?u ?S = (Returned (), ?L1)"
    by (simp add: run_defs)
  have r1: "results_of (load_results ?L1) ?u = [ok_result ?u]"
    by (simp add: run_defs results_of_def)
  have b1: "backend_state ?L1 = [Returned (timeout_result ?u)]"
    by (simp add: run_defs)
  have p2: "process_url scripted example_config ?u ?L1 = (Returned (), ?L2)"
    by (cases "process_url scripted example_config ?u ?L1")
       (simp add: process_url_def check_protocol_available_def scripted_def example_config_def
          run_trials_def check_url_def Let_def)
  have a2: "\<not> (check_protocol_availability example_config \<and>
            fst (check_protocol_available scripted example_config (check_url ?u) ?L1) = Returned False)"
    by (simp add: check_protocol_available_def scripted_def check_url_def Let_def)
  have r2: "results_of (load_results ?L2) ?u = [ok_result ?u, timeout_result ?u]"
    by (simp add: run_defs results_of_def)
  have lp: "page_results (snd (load_pages scripted example_config [?u, ?u] ?L0)) = page_results ?L2"
    by (simp add: run_defs)
  from duplicate_url_accumulates[OF p2 a2]
  have "page_results ?L2 = (page_results ?L1)(?u \<mapsto>
           PageResult_init ?u None (Some (results_of (load_results ?L2) ?u)))"
    unfolding u by blast
  then show ?thesis unfolding lp r2 by simp
qed

text \<open>
  C4 (as stated): the number of entries in the times of a summary equals the count of
  Success results of the URL and never exceeds num_trials. The Chrome backend's
  success carries no time, so its summary holds no time for one Success result; and a
  URL submitted twice with num_trials = 1 gets a summary with two times.
\<close>

theorem times_count_counterexample:
  "lr_status (ChromeLoader_load_page example_config ''http://a.com'' ''.'' 0 Capture_done) = LoadResult_SUCCESS \<and>
   pr_times (PageResult_init ''http://a.com'' None
      (Some [ChromeLoader_load_page example_config ''http://a.com'' ''.'' 0 Capture_done])) = [] \<and>
   num_trials example_config = 1 \<and>
   map_option pr_times (page_results (snd (load_pages scripted example_config [''http://a.com'', ''http://a.com'']
      (Loader_init [Returned (ok_result ''http://a.com''), Returned (ok_result ''http://a.com'')])))
      ''http://a.com'') = Some [PyNum 1, PyNum 1]"
  by (simp add: run_defs ChromeLoader_load_page_def PageResult_init_def PageResult_step_def
      PageResult_SUCCESS_def)

text \<open>
  C4 (amended): the number of entries in the times of a summary equals the number of
  aggregated Success results whose time is true in Python's sense (not None, zero or
  empty), so it is at most the number of Success results; after a run on a fresh
  loader it is at most num_trials for each occurrence of the normalized URL in the
  input, hence at most num_trials for a URL submitted once.
\<close>

theorem times_count:
  "length (pr_times (PageResult_init u None (Some rs))) =
     length (filter (\<lambda>r. lr_status r = LoadResult_SUCCESS \<and> truthy (lr_time r)) rs) \<and>
   length (pr_times (PageResult_init u None (Some rs))) \<le>
     length (filter (\<lambda>r. lr_status r = LoadResult_SUCCESS) rs) \<and>
   (page_results (snd (load_pages B C us (Loader_init b))) k = Some p \<longrightarrow>
      length (pr_times p) \<le> count_list (map check_url us) k * nat (num_trials C))"
proof -
  have a: "length (pr_times (PageResult_init u None (Some rs))) =
     length (filter (\<lambda>r. lr_status r = LoadResult_SUCCESS \<and> truthy (lr_time r)) rs)"
    by (simp add: PageResult_init_times)
  have "length (filter (\<lambda>r. lr_status r = LoadResult_SUCCESS \<and> truthy (lr_time r)) rs)
      \<le> length (filter (\<lambda>r. lr_status r = LoadResult_SUCCESS) rs)"
    by (induction rs) auto
  with a have b: "length (pr_times (PageResult_init u None (Some rs))) \<le>
     length (filter (\<lambda>r. lr_status r = LoadResult_SUCCESS) rs)" by simp
  have c: "length (pr_times p) \<le> count_list (map check_url us) k * nat (num_trials C)"
    if p: "page_results (snd (load_pages B C us (Loader_init b))) k = Some p"
  proof (cases "fst (hook_setup B (backend_state (Loader_init b))) = Returned True")
    case False
    have "page_results (snd (load_pages B C us (Loader_init b))) = page_results (Loader_init b)"
      using load_pages_body_setup_not_true(3)[OF False] by (simp add: load_pages_fields)
    then show ?thesis using p by (simp add: Loader_init_def)
  next
    case True
    let ?S = "(Loader_init b)\<lparr>backend_state := snd (hook_setup B (backend_state (Loader_init b))),
                        calls := calls (Loader_init b) @ [Call_setup (Returned True)]\<rparr>"
    obtain x L' where f: "for_urls B C us ?S = (x, L')" by (cases "for_urls B C us ?S")
    have inv: "\<forall>k q. page_results ?S k = Some q \<longrightarrow>
        length (pr_times q) \<le> length (results_of (load_results ?S) k)"
      by (simp add: Loader_init_def)
    have e: "results_of (load_results ?S) k = []" by (simp add: Loader_init_def results_of_def)
    have "page_results (snd (load_pages B C us (Loader_init b))) = page_results L'"
      using f load_pages_body_setup_true[OF True, of C us] by (simp add: load_pages_fields)
    then have "page_results L' k = Some p" using p by simp
    then have "length (pr_times p) \<le> length (results_of (load_results L') k)"
      using for_urls_bound[OF f inv] by blast
    also have "\<dots> \<le> length (results_of (load_results ?S) k) + count_list (map check_url us) k * nat (num_trials C)"
      using for_urls_bound[OF f inv] by blast
    finally show ?thesis unfolding e by simp
  qed
  from a b c show ?thesis by blast
qed

theorem times_count_witness:
  "length (pr_times (PageResult_init ''http://a.com'' None
      (Some [ok_result ''http://a.com'', ok_result ''http://a.com'']))) \<le> 1 * nat 2"
proof -
  let ?u = "''http://a.com''"
  let ?C = "example_config\<lparr>num_trials := 2\<rparr>"
  let ?p = "PageResult_init ?u None (Some [ok_result ?u, ok_result ?u])"
  have h: "page_results (snd (load_pages scripted ?C [?u]
      (Loader_init [Returned (ok_result ?u), Returned (ok_result ?u)]))) ?u = Some ?p"
    by (simp add: run_defs)
  have c: "count_list (map check_url [?u]) ?u = 1" by (simp add: check_url_def)
  have n: "num_trials ?C = 2" by simp
  from times_count[of ?u "[]" scripted ?C "[?u]" _ ?u ?p] h
  have "length (pr_times ?p) \<le> count_list (map check_url [?u]) ?u * nat (num_trials ?C)" by blast
  then show ?thesis unfolding c n .
qed




text \<open>
  C2 (as stated): for an empty list of URLs the run reports an input error before the
  setup, so neither setup nor teardown is called. \<open>load_pages\<close> on the empty list
  calls the setup and then the teardown, logs nothing and returns.
\<close>

theorem empty_url_list_counterexample:
  "load_pages scripted example_config [] (Loader_init []) =
     (Returned (), (Loader_init [])\<lparr>calls := [Call_setup (Returned True), Call_teardown (Returned ())]\<rparr>) \<and>
   logged (Loader_init ([] :: LoadResult outcome list)) = []"
  by (simp add: run_defs)

text \<open>
  C2 (amended): \<open>load_pages\<close> on an empty list of URLs reports no input error: it calls
  the setup and then the teardown, once each, and changes no result; when the setup
  answers true it logs nothing. The empty list is refused one level up: the
  command-line tool logs that no URLs were specified and exits with status -1 before
  it constructs a loader, so that no call of \<open>load_pages\<close> is made.
\<close>

theorem empty_url_list_runs_setup_and_teardown:
  "calls_since L (snd (load_pages B C [] L)) =
     [Call_setup (fst (hook_setup B (backend_state L))),
      Call_teardown (fst (hook_teardown B (snd (hook_setup B (backend_state L)))))] \<and>
   urls (snd (load_pages B C [] L)) = urls L \<and>
   load_results (snd (load_pages B C [] L)) = load_results L \<and>
   page_results (snd (load_pages B C [] L)) = page_results L \<and>
   (fst (hook_setup B (backend_state L)) = Returned True \<longrightarrow>
      logged (snd (load_pages B C [] L)) = logged L) \<and>
   (make_url_list a = [] \<longrightarrow> main B b a = Exit (- 1) [Log_no_urls])"
proof -
  have "calls (snd (load_pages B C [] L)) = calls L @
     [Call_setup (fst (hook_setup B (backend_state L))),
      Call_teardown (fst (hook_teardown B (snd (hook_setup B (backend_state L)))))]"
    by (simp add: load_pages_fields load_pages_body_Nil)
  then have c: "calls_since L (snd (load_pages B C [] L)) =
     [Call_setup (fst (hook_setup B (backend_state L))),
      Call_teardown (fst (hook_teardown B (snd (hook_setup B (backend_state L)))))]"
    by (rule calls_since_append)
  have l: "fst (hook_setup B (backend_state L)) = Returned True \<longrightarrow>
      logged (snd (load_pages B C [] L)) = logged L"
    by (simp add: load_pages_eq load_pages_body_def call_setup_eq call_teardown_eq)
  have m: "make_url_list a = [] \<longrightarrow> main B b a = Exit (- 1) [Log_no_urls]"
    by (simp add: main_def)
  from c l m show ?thesis by (simp add: load_pages_fields load_pages_body_Nil)
qed

theorem empty_url_list_runs_setup_and_teardown_witness:
  "logged (snd (load_pages scripted example_config [] (Loader_init []))) = [] \<and>
   main scripted []
     \<lparr>url_file_lines = Some [''  '', ''''], load_pages_arg = None, args_outdir = ''.'',
      numtrials = 1, useragent = None\<rparr> = Exit (- 1) [Log_no_urls]"
proof -
  let ?a = "\<lparr>url_file_lines = Some [''  '', ''''], load_pages_arg = None, args_outdir = ''.'',
      numtrials = 1, useragent = None\<rparr>"
  have s: "fst (hook_setup scripted (backend_state (Loader_init []))) = Returned True"
    by (simp add: scripted_def)
  have e: "make_url_list ?a = []"
    by (simp add: make_url_list_def py_strip_def is_space_def)
  have l: "logged (Loader_init ([] :: LoadResult outcome list)) = []" by (simp add: Loader_init_def)
  from empty_url_list_runs_setup_and_teardown[of "Loader_init []" scripted example_config ?a "[]"] s e l
  show ?thesis by simp
qed

end
